theory Spec2Isabelle
  imports Main
begin

section \<open>Change records and navigation over the current ChangeSet\<close>

text \<open>
  An \<open>IChange\<close> is the line-range record the tracker reads: the source accesses
  \<open>modifiedStartLineNumber\<close> directly and the modified-side end line through the helper
  \<open>getModifiedEndLineNumber\<close> of \<open>./dirty-diff-util\<close>. Line numbers are JavaScript
  numbers holding integers.
\<close>

record IChange =
  originalStartLineNumber :: int
  originalEndLineNumber :: int
  modifiedStartLineNumber :: int
  modifiedEndLineNumber :: int

text \<open>
  \<open>findNextClosestChange\<close>: the \<open>for\<close> loop over \<open>i = 0 .. length - 1\<close>, returning the
  first index whose change qualifies and \<open>0\<close> when the loop runs out. The helper
  \<open>getModifiedEndLineNumber\<close> is not part of the sources at hand; it is the parameter
  \<open>gmeln\<close>.
\<close>

function findNext_loop :: "(IChange \<Rightarrow> int) \<Rightarrow> IChange list \<Rightarrow> int \<Rightarrow> bool \<Rightarrow> nat \<Rightarrow> int" where
  "findNext_loop gmeln cs lineNumber inclusive i =
     (if i < length cs then
        (let change = cs ! i in
         if inclusive then
           (if gmeln change \<ge> lineNumber then int i
            else findNext_loop gmeln cs lineNumber inclusive (i + 1))
         else
           (if modifiedStartLineNumber change > lineNumber then int i
            else findNext_loop gmeln cs lineNumber inclusive (i + 1)))
      else 0)"
  by pat_completeness auto
termination
  by (relation "measure (\<lambda>(gmeln, cs, lineNumber, inclusive, i). length cs - i)") auto

declare findNext_loop.simps [simp del]

definition findNextClosestChange :: "(IChange \<Rightarrow> int) \<Rightarrow> IChange list \<Rightarrow> int \<Rightarrow> bool \<Rightarrow> int" where
  "findNextClosestChange gmeln cs lineNumber inclusive = findNext_loop gmeln cs lineNumber inclusive 0"

text \<open>
  \<open>findPreviousClosestChange\<close>: the loop runs \<open>i = length - 1\<close> down to \<open>0\<close>; the counter
  \<open>Suc i\<close> of the model stands for the loop variable \<open>i\<close>, and counter \<open>0\<close> for the exit
  (\<open>i = -1\<close>), where the source returns \<open>length - 1\<close> (which is \<open>-1\<close> on an empty list).
\<close>

fun findPrevious_loop :: "(IChange \<Rightarrow> int) \<Rightarrow> IChange list \<Rightarrow> int \<Rightarrow> bool \<Rightarrow> nat \<Rightarrow> int" where
  "findPrevious_loop gmeln cs lineNumber inclusive 0 = int (length cs) - 1"
| "findPrevious_loop gmeln cs lineNumber inclusive (Suc i) =
     (let change = cs ! i in
      if inclusive then
        (if modifiedStartLineNumber change \<le> lineNumber then int i
         else findPrevious_loop gmeln cs lineNumber inclusive i)
      else
        (if gmeln change < lineNumber then int i
         else findPrevious_loop gmeln cs lineNumber inclusive i))"

definition findPreviousClosestChange :: "(IChange \<Rightarrow> int) \<Rightarrow> IChange list \<Rightarrow> int \<Rightarrow> bool \<Rightarrow> int" where
  "findPreviousClosestChange gmeln cs lineNumber inclusive =
     findPrevious_loop gmeln cs lineNumber inclusive (length cs)"

section \<open>Promises, text models and splices\<close>

text \<open>
  A promise that has settled is either fulfilled with a value or rejected with an error.
  None of the chains in \<open>DirtyDiffModel\<close> passes a rejection handler to \<open>then\<close>, so a
  rejection skips every callback chained after it.
\<close>

datatype 'a settled = Fulfilled 'a | Rejected string

text \<open>
  What the tracker reads of a \<open>monaco.editor.ITextModel\<close>: its \<open>uri\<close> (as the string
  \<open>uri.toString()\<close>), \<open>getValueLength()\<close> and \<open>isDisposed()\<close>.
\<close>

record ITextModel =
  uri :: string
  valueLength :: nat
  disposed :: bool

record 'a ISplice =
  start :: nat
  deleteCount :: nat
  toInsert :: "'a list"

text \<open>
  Modelled from the spec: \<open>sortedDiff\<close> of \<open>@ali/ide-core-common\<close> is not among the
  sources. The spec describes it as a stable-order list diff, keyed by the comparator it
  is given, that produces the minimal splices between the previous and the new ChangeSet
  (for previous \<open>[a]\<close> and new \<open>[a, b]\<close>, only the insertion of \<open>b\<close>). Both lists are
  walked in step: equal heads are kept, a smaller old head is deleted, a smaller new head
  is inserted, and adjacent edits are joined into one splice.
\<close>

definition pushSplice :: "nat \<Rightarrow> nat \<Rightarrow> 'a list \<Rightarrow> 'a ISplice list \<Rightarrow> 'a ISplice list" where
  "pushSplice s d ins result =
     (if d = 0 \<and> ins = [] then result
      else if result \<noteq> [] \<and> start (last result) + deleteCount (last result) = s then
        butlast result @
          [(last result)\<lparr>deleteCount := deleteCount (last result) + d,
                         toInsert := toInsert (last result) @ ins\<rparr>]
      else result @ [\<lparr>start = s, deleteCount = d, toInsert = ins\<rparr>])"

fun sortedDiff_loop ::
  "('a \<Rightarrow> 'a \<Rightarrow> int) \<Rightarrow> nat \<Rightarrow> 'a list \<Rightarrow> 'a list \<Rightarrow> 'a ISplice list \<Rightarrow> 'a ISplice list" where
  "sortedDiff_loop cmp beforeIdx [] after result = pushSplice beforeIdx 0 after result"
| "sortedDiff_loop cmp beforeIdx (b # bs) [] result =
     pushSplice beforeIdx (length (b # bs)) [] result"
| "sortedDiff_loop cmp beforeIdx (b # bs) (a # as) result =
     (let n = cmp b a in
      if n = 0 then sortedDiff_loop cmp (beforeIdx + 1) bs as result
      else if n < 0 then
        sortedDiff_loop cmp (beforeIdx + 1) bs (a # as) (pushSplice beforeIdx 1 [] result)
      else sortedDiff_loop cmp beforeIdx (b # bs) as (pushSplice beforeIdx 0 [a] result))"

definition sortedDiff :: "'a list \<Rightarrow> 'a list \<Rightarrow> ('a \<Rightarrow> 'a \<Rightarrow> int) \<Rightarrow> 'a ISplice list" where
  "sortedDiff before after cmp = sortedDiff_loop cmp 0 before after []"

text \<open>
  Modelled from the spec: \<open>first\<close> of \<open>@ali/ide-core-common/lib/async\<close> is not among the
  sources. The spec: the providers are queried in registration order and the first
  non-empty answer wins. The argument is the list of thunks the source builds, one per
  repository; a thunk is only called when every thunk before it answered empty. The
  spec gives \<open>first\<close> no handling of failures of its own (it leaves them to the
  pipeline), so a thunk whose promise rejects settles the query with that rejection.
\<close>

fun first :: "(unit \<Rightarrow> 'a option settled) list \<Rightarrow> 'a option settled" where
  "first [] = Fulfilled None"
| "first (f # fs) =
     (case f () of
        Rejected e \<Rightarrow> Rejected e
      | Fulfilled (Some r) \<Rightarrow> Fulfilled (Some r)
      | Fulfilled None \<Rightarrow> first fs)"

section \<open>The coalescing delay gate\<close>

text \<open>
  Modelled from the spec: \<open>ThrottledDelayer\<close> of \<open>@ali/ide-core-common\<close> is not among the
  sources. The spec gives it as the state machine idle, scheduled, running,
  running+requeued: a trigger while idle arms a timer for the delay window; a trigger
  while a run is scheduled and not yet started is absorbed (no new timer); a trigger
  while a run is in progress queues exactly one follow-up run, which starts when the
  current one finishes; cancelling suppresses the pending timer. Time is a count of time
  units; \<open>Scheduled d\<close> holds the time at which the timer fires, and \<open>started\<close> counts the
  runs the gate has started.
\<close>

datatype gate_phase = Idle | Scheduled nat | Running | RunningRequeued

record ThrottledDelayer =
  defaultDelay :: nat
  phase :: gate_phase
  started :: nat

definition new_ThrottledDelayer :: "nat \<Rightarrow> ThrottledDelayer" where
  "new_ThrottledDelayer d = \<lparr>defaultDelay = d, phase = Idle, started = 0\<rparr>"

definition gate_tick :: "nat \<Rightarrow> ThrottledDelayer \<Rightarrow> ThrottledDelayer" where
  "gate_tick now g =
     (case phase g of
        Scheduled d \<Rightarrow> (if d \<le> now then g\<lparr>phase := Running, started := started g + 1\<rparr> else g)
      | _ \<Rightarrow> g)"

definition gate_trigger :: "nat \<Rightarrow> ThrottledDelayer \<Rightarrow> ThrottledDelayer" where
  "gate_trigger now g =
     (let g' = gate_tick now g in
      case phase g' of
        Idle \<Rightarrow> g'\<lparr>phase := Scheduled (now + defaultDelay g')\<rparr>
      | Scheduled d \<Rightarrow> g'
      | Running \<Rightarrow> g'\<lparr>phase := RunningRequeued\<rparr>
      | RunningRequeued \<Rightarrow> g')"

definition gate_finished :: "ThrottledDelayer \<Rightarrow> ThrottledDelayer" where
  "gate_finished g =
     (case phase g of
        Running \<Rightarrow> g\<lparr>phase := Idle\<rparr>
      | RunningRequeued \<Rightarrow> g\<lparr>phase := Running, started := started g + 1\<rparr>
      | _ \<Rightarrow> g)"

definition gate_cancel :: "ThrottledDelayer \<Rightarrow> ThrottledDelayer" where
  "gate_cancel g = (case phase g of Scheduled d \<Rightarrow> g\<lparr>phase := Idle\<rparr> | _ \<Rightarrow> g)"

section \<open>DirtyDiffModel\<close>

text \<open>
  The fields of the class. \<open>delayer\<close> is the \<open>ThrottledDelayer\<close> object made by the
  constructor and \<open>diffDelayer\<close> says whether the field of that name still refers to it
  (\<open>dispose\<close> cancels the object and then sets the field to \<open>null\<close>; the object's timer
  belongs to the runtime either way). \<open>changes\<close> is \<open>_changes\<close>; \<open>fired\<close> records the
  arguments of \<open>_onDidChange.fire\<close>, oldest first. \<open>repositoryDisposables\<close> holds one entry
  (the repository's identity) per live subscription store, \<open>originalModelDisposables\<close> the
  identifier of the original document reference held.
\<close>

record DirtyDiffModel =
  editorModel :: "ITextModel option"
  originalModel :: "ITextModel option"
  diffDelayer :: bool
  delayer :: ThrottledDelayer
  changes :: "IChange list"
  fired :: "IChange ISplice list list"
  repositoryDisposables :: "nat list"
  originalModelDisposables :: "string list"

text \<open>
  The collaborators a recompute calls: the providers of the known repositories in
  registration order (each answers \<open>getOriginalResource\<close> for a document identifier, with
  an identifier, with \<open>null\<close>, or by rejecting), the
  document manager's \<open>createModelReference\<close> (the text model of the reference, or
  \<open>null\<close>), and the editor worker's \<open>canComputeDiff\<close> and \<open>computeDiff\<close> (a result
  carrying its \<open>changes\<close>, or \<open>null\<close>).
\<close>

record IDiffComputationResult =
  identical :: bool
  ret_changes :: "IChange list"

record collaborators =
  repositories :: "(string \<Rightarrow> string option settled) list"
  createModelReference :: "string \<Rightarrow> ITextModel option settled"
  canComputeDiff :: "string \<Rightarrow> string \<Rightarrow> bool"
  computeDiff :: "string \<Rightarrow> string \<Rightarrow> IDiffComputationResult option settled"

definition triggerDiff :: "nat \<Rightarrow> DirtyDiffModel \<Rightarrow> DirtyDiffModel" where
  "triggerDiff now st =
     (if \<not> diffDelayer st then st
      else st\<lparr>delayer := gate_trigger now (delayer st)\<rparr>)"

definition onDidAddRepository :: "nat \<Rightarrow> nat \<Rightarrow> DirtyDiffModel \<Rightarrow> DirtyDiffModel" where
  "onDidAddRepository repository now st =
     triggerDiff now (st\<lparr>repositoryDisposables := repositoryDisposables st @ [repository]\<rparr>)"


definition onDidRemoveRepository :: "nat \<Rightarrow> DirtyDiffModel \<Rightarrow> DirtyDiffModel" where
  "onDidRemoveRepository repository st =
     st\<lparr>repositoryDisposables := removeAll repository (repositoryDisposables st)\<rparr>"

definition constructor :: "ITextModel \<Rightarrow> nat list \<Rightarrow> nat \<Rightarrow> DirtyDiffModel" where
  "constructor model repos now =
     triggerDiff now
       (fold (\<lambda>r. onDidAddRepository r now) repos
          \<lparr>editorModel = Some model, originalModel = None, diffDelayer = True,
           delayer = new_ThrottledDelayer 200, changes = [], fired = [],
           repositoryDisposables = [], originalModelDisposables = []\<rparr>)"

text \<open>
  \<open>dispose\<close>: \<open>super.dispose()\<close> releases what \<open>addDispose\<close> registered, among it the store
  of the original model; then the fields are cleared, the gate is cancelled and
  dropped, and every repository store is disposed.
\<close>

definition dispose :: "DirtyDiffModel \<Rightarrow> DirtyDiffModel" where
  "dispose st =
     st\<lparr>originalModelDisposables := [],
        editorModel := None,
        originalModel := None,
        delayer := (if diffDelayer st then gate_cancel (delayer st) else delayer st),
        diffDelayer := False,
        repositoryDisposables := []\<rparr>"

subsection \<open>What may happen while a recompute waits\<close>

text \<open>
  A recompute is suspended while it waits for the providers, for the document manager,
  for the settled identifier to reach \<open>diff\<close>, and for the diff result to reach the
  callback of \<open>triggerDiff\<close>. While it waits, the tracker may be disposed, or the editor
  may dispose one of the two text models. A schedule says what happens at each wait.
\<close>

datatype wait = AwaitProviders | AwaitResolver | AwaitOriginalURI | AwaitDiff

datatype action = Quiet | Detach | EditorModelDisposed | OriginalModelDisposed

fun interfere :: "action \<Rightarrow> DirtyDiffModel \<Rightarrow> DirtyDiffModel" where
  "interfere Quiet st = st"
| "interfere Detach st = dispose st"
| "interfere EditorModelDisposed st =
     st\<lparr>editorModel := map_option (\<lambda>m. m\<lparr>disposed := True\<rparr>) (editorModel st)\<rparr>"
| "interfere OriginalModelDisposed st =
     st\<lparr>originalModel := map_option (\<lambda>m. m\<lparr>disposed := True\<rparr>) (originalModel st)\<rparr>"

subsection \<open>The recompute pipeline\<close>

definition getOriginalResource :: "collaborators \<Rightarrow> DirtyDiffModel \<Rightarrow> string option settled" where
  "getOriginalResource env st =
     (case editorModel st of
        None \<Rightarrow> Fulfilled None
      | Some m \<Rightarrow> first (map (\<lambda>r. (\<lambda>_. r (uri m))) (repositories env)))"

text \<open>
  \<open>getOriginalURIPromise\<close>. The gate never lets two runs overlap and the \<open>finally\<close>
  clears \<open>_originalURIPromise\<close> when the promise settles, so a run finds that field empty
  and takes the path that starts a resolution. The callbacks are chained with \<open>then\<close>
  and no rejection handler: a rejection of the provider query or of
  \<open>createModelReference\<close> skips them and is the settlement of the promise returned.
\<close>

definition getOriginalURIPromise ::
  "collaborators \<Rightarrow> (wait \<Rightarrow> action) \<Rightarrow> DirtyDiffModel \<Rightarrow> string option settled \<times> DirtyDiffModel" where
  "getOriginalURIPromise env sched st =
     (let answer = getOriginalResource env st;
          st1 = interfere (sched AwaitProviders) st in
      case answer of
        Rejected e \<Rightarrow> (Rejected e, st1)
      | Fulfilled resolved \<Rightarrow>
          if editorModel st1 = None then (Fulfilled None, st1)
          else case resolved of
            None \<Rightarrow> (Fulfilled None, st1\<lparr>originalModel := None\<rparr>)
          | Some originalUri \<Rightarrow>
              if (case originalModel st1 of None \<Rightarrow> False | Some om \<Rightarrow> uri om = originalUri)
              then (Fulfilled (Some originalUri), st1)
              else
                (let st2 = interfere (sched AwaitResolver) st1 in
                 case createModelReference env originalUri of
                   Rejected e \<Rightarrow> (Rejected e, st2)
                 | Fulfilled docModelRef \<Rightarrow>
                     if editorModel st2 = None then (Fulfilled None, st2)
                     else case docModelRef of
                       None \<Rightarrow> (Fulfilled None, st2)
                     | Some textEditorModel \<Rightarrow>
                         (Fulfilled (Some originalUri),
                          st2\<lparr>originalModel := Some textEditorModel,
                              originalModelDisposables := [originalUri]\<rparr>)))"

definition diff ::
  "collaborators \<Rightarrow> (wait \<Rightarrow> action) \<Rightarrow> DirtyDiffModel \<Rightarrow> IChange list option settled \<times> DirtyDiffModel" where
  "diff env sched st =
     (case getOriginalURIPromise env sched st of
        (Rejected e, st1) \<Rightarrow> (Rejected e, st1)
      | (Fulfilled originalURI, st1) \<Rightarrow>
          (let st2 = interfere (sched AwaitOriginalURI) st1 in
           case editorModel st2 of
             None \<Rightarrow> (Fulfilled (Some []), st2)
           | Some em \<Rightarrow>
               if disposed em \<or> originalURI = None then (Fulfilled (Some []), st2)
               else if \<not> canComputeDiff env (the originalURI) (uri em) then (Fulfilled (Some []), st2)
               else case computeDiff env (the originalURI) (uri em) of
                 Rejected e \<Rightarrow> (Rejected e, st2)
               | Fulfilled ret \<Rightarrow> (Fulfilled (map_option ret_changes ret), st2)))"

text \<open>
  The callback \<open>triggerDiff\<close> chains to the gate's promise (lines 84 to 99 of the
  source), with the comparator \<open>compareChanges\<close> of \<open>./dirty-diff-util\<close>, which is not
  among the sources, as the parameter \<open>cmp\<close>.
\<close>

definition triggerDiff_then ::
  "(IChange \<Rightarrow> IChange \<Rightarrow> int) \<Rightarrow> IChange list option \<Rightarrow> DirtyDiffModel \<Rightarrow> DirtyDiffModel" where
  "triggerDiff_then cmp result st =
     (case (editorModel st, originalModel st) of
        (Some em, Some om) \<Rightarrow>
          if disposed em \<or> disposed om then st
          else
            (let new_changes = (if result = None \<or> valueLength om = 0 then [] else the result);
                 d = sortedDiff (changes st) new_changes cmp
             in st\<lparr>changes := new_changes,
                   fired := (if length d > 0 then fired st @ [d] else fired st)\<rparr>)
      | _ \<Rightarrow> st)"

text \<open>
  Modelled from the spec: what the promise returned by \<open>diffDelayer.trigger\<close> does with
  the settlement of the task is part of \<open>ThrottledDelayer\<close>, which is not among the
  sources. The spec: the pipeline catches a collaborator failure and downgrades it to an
  empty result; nothing is propagated as an error.
\<close>

fun downgrade :: "IChange list option settled \<Rightarrow> IChange list option settled" where
  "downgrade (Fulfilled result) = Fulfilled result"
| "downgrade (Rejected e) = Fulfilled (Some [])"

text \<open>
  One run of the pipeline, from the moment the gate calls the task \<open>() => this.diff()\<close>
  to the settlement of the promise \<open>triggerDiff\<close> returned. What the gate's promise makes
  of the task's settlement is the parameter \<open>relay\<close>; \<open>downgrade\<close> above is the gate of
  the spec. The callback of \<open>triggerDiff\<close> runs when the gate's promise is fulfilled, and
  is skipped when it is rejected, as \<open>then\<close> has no rejection handler.
\<close>

definition recompute ::
  "(IChange list option settled \<Rightarrow> IChange list option settled) \<Rightarrow> (IChange \<Rightarrow> IChange \<Rightarrow> int)
     \<Rightarrow> collaborators \<Rightarrow> (wait \<Rightarrow> action) \<Rightarrow> DirtyDiffModel \<Rightarrow> unit settled \<times> DirtyDiffModel" where
  "recompute relay cmp env sched st =
     (case diff env sched st of
        (outcome_of_task, st1) \<Rightarrow>
          (let st2 = interfere (sched AwaitDiff) st1 in
           case relay outcome_of_task of
             Rejected e \<Rightarrow> (Rejected e, st2)
           | Fulfilled result \<Rightarrow> (Fulfilled (), triggerDiff_then cmp result st2)))"

section \<open>CompareService\<close>

datatype CompareResult = accept | revert

datatype command = OPEN_RESOURCE string | CLOSE_ALL string

text \<open>
  Modelled from the spec: \<open>Deferred\<close> of \<open>@ali/ide-core-browser\<close> is not among the sources.
  The spec: a single-settlement result slot; a settled one never changes again. A
  \<open>Deferred\<close> here also carries the comparison identifier its \<open>then\<close> callback closes over.
  Its index in \<open>deferreds\<close> is its identity, and stands for the promise handle
  \<open>compare\<close> returns. \<open>microtasks\<close> are the \<open>then\<close> callbacks of promises already resolved
  that have not run yet; \<open>executed\<close> lists the commands given to
  \<open>commandService.executeCommand\<close>, oldest first.
\<close>

record Deferred =
  resource :: string
  outcome :: "CompareResult option"

record CompareService =
  comparing :: "string \<rightharpoonup> nat"
  deferreds :: "Deferred list"
  executed :: "command list"
  microtasks :: "nat list"

definition new_CompareService :: CompareService where
  "new_CompareService = \<lparr>comparing = Map.empty, deferreds = [], executed = [], microtasks = []\<rparr>"

text \<open>
  \<open>compare\<close>. The identifier \<open>compareUri.toString()\<close> is built by \<open>URI.from\<close> and
  \<open>URI.stringifyQuery\<close>, which are not among the sources; the builder is the parameter
  \<open>compareUri\<close>.
\<close>

definition compare ::
  "(string \<Rightarrow> string \<Rightarrow> string \<Rightarrow> string) \<Rightarrow> string \<Rightarrow> string \<Rightarrow> string \<Rightarrow> CompareService
     \<Rightarrow> nat \<times> CompareService" where
  "compare compareUri original modified name s =
     (let k = compareUri original modified name;
          s1 = (if comparing s k = None then
                  s\<lparr>deferreds := deferreds s @ [\<lparr>resource = k, outcome = None\<rparr>],
                    comparing := (comparing s)(k \<mapsto> length (deferreds s))\<rparr>
                else s);
          s2 = s1\<lparr>executed := executed s1 @ [OPEN_RESOURCE k]\<rparr>
      in (the (comparing s2 k), s2))"

definition Deferred_resolve :: "nat \<Rightarrow> CompareResult \<Rightarrow> CompareService \<Rightarrow> CompareService" where
  "Deferred_resolve d v s =
     (if d < length (deferreds s) \<and> outcome (deferreds s ! d) = None then
        s\<lparr>deferreds := (deferreds s)[d := (deferreds s ! d)\<lparr>outcome := Some v\<rparr>],
          microtasks := microtasks s @ [d]\<rparr>
      else s)"

text \<open>
  The handlers of \<open>editor.diff.accept\<close> and \<open>editor.diff.revert\<close>: \<open>execute\<close> with the
  outcome the command stands for; \<open>res\<close> is \<open>resource.uri.toString()\<close>, or \<open>None\<close> when
  the command is run without a resource.
\<close>

definition execute :: "CompareResult \<Rightarrow> string option \<Rightarrow> CompareService \<Rightarrow> CompareService" where
  "execute v res s =
     (case res of
        None \<Rightarrow> s
      | Some u \<Rightarrow> (case comparing s u of None \<Rightarrow> s | Some d \<Rightarrow> Deferred_resolve d v s))"

text \<open>The callback \<open>compare\<close> registers on the promise (lines 28 to 31 of the source).\<close>

definition on_settled :: "nat \<Rightarrow> CompareService \<Rightarrow> CompareService" where
  "on_settled d s =
     (let k = resource (deferreds s ! d) in
      s\<lparr>comparing := (comparing s)(k := None), executed := executed s @ [CLOSE_ALL k]\<rparr>)"

definition run_microtasks :: "CompareService \<Rightarrow> CompareService" where
  "run_microtasks s = fold on_settled (microtasks s) (s\<lparr>microtasks := []\<rparr>)"

section \<open>Concrete inputs\<close>

text \<open>
  Inputs for the examples below: changes of one line each, a comparator on the modified
  start line, a tracked document with a cached original, and collaborators in which the
  first provider answers nothing and the second answers \<open>orig://x\<close>, with variants in
  which no provider answers, or a provider, the document manager or the diff oracle
  rejects.
\<close>

definition chg :: "int \<Rightarrow> IChange" where
  "chg n = \<lparr>originalStartLineNumber = n, originalEndLineNumber = n,
            modifiedStartLineNumber = n, modifiedEndLineNumber = n\<rparr>"

definition ex3 :: "IChange list" where
  "ex3 = [chg 2, chg 10, chg 20]"

definition byModifiedStart :: "IChange \<Rightarrow> IChange \<Rightarrow> int" where
  "byModifiedStart a b = modifiedStartLineNumber a - modifiedStartLineNumber b"

definition doc :: ITextModel where
  "doc = \<lparr>uri = ''file:///a.ts'', valueLength = 10, disposed = False\<rparr>"

definition orig :: ITextModel where
  "orig = \<lparr>uri = ''orig://x'', valueLength = 7, disposed = False\<rparr>"

definition tracked :: DirtyDiffModel where
  "tracked = \<lparr>editorModel = Some doc, originalModel = Some orig, diffDelayer = True,
              delayer = \<lparr>defaultDelay = 200, phase = Running, started = 1\<rparr>,
              changes = [chg 3], fired = [],
              repositoryDisposables = [0, 1], originalModelDisposables = [''orig://x'']\<rparr>"

definition quiet :: "wait \<Rightarrow> action" where
  "quiet w = Quiet"

definition detach_at :: "wait \<Rightarrow> wait \<Rightarrow> action" where
  "detach_at w w' = (if w' = w then Detach else Quiet)"

definition workers :: "IChange list \<Rightarrow> collaborators" where
  "workers cs =
     \<lparr>repositories = [\<lambda>_. Fulfilled None, \<lambda>_. Fulfilled (Some ''orig://x'')],
      createModelReference = (\<lambda>_. Fulfilled (Some orig)),
      canComputeDiff = (\<lambda>_ _. True),
      computeDiff = (\<lambda>_ _. Fulfilled (Some \<lparr>identical = False, ret_changes = cs\<rparr>))\<rparr>"

definition unowned :: collaborators where
  "unowned = (workers [chg 3])\<lparr>repositories := [\<lambda>_. Fulfilled None, \<lambda>_. Fulfilled None]\<rparr>"

definition failing_oracle :: collaborators where
  "failing_oracle = (workers [])\<lparr>computeDiff := (\<lambda>_ _. Rejected ''diff failed'')\<rparr>"

definition rejecting_resolver :: collaborators where
  "rejecting_resolver =
     (workers [chg 3])\<lparr>repositories := [\<lambda>_. Fulfilled (Some ''orig://y'')],
                       createModelReference := (\<lambda>_. Rejected ''resolve failed'')\<rparr>"

definition rejecting_provider :: collaborators where
  "rejecting_provider =
     (workers [chg 3])\<lparr>repositories := [\<lambda>_. Rejected ''provider failed'']\<rparr>"

definition empty_original :: DirtyDiffModel where
  "empty_original = tracked\<lparr>originalModel := Some (orig\<lparr>valueLength := 0\<rparr>)\<rparr>"

definition idle_tracker :: DirtyDiffModel where
  "idle_tracker = tracked\<lparr>delayer := new_ThrottledDelayer 200\<rparr>"


text \<open>
  An identifier builder of the kind the spec describes: a string built from the original
  reference, the modified reference, the label and a fixed \<open>comparing\<close> marker.
\<close>

definition diffUri :: "string \<Rightarrow> string \<Rightarrow> string \<Rightarrow> string" where
  "diffUri original modified name =
     ''diff:?name='' @ name @ ''&original='' @ original @ ''&modified='' @ modified @
     ''&comparing=true''"

definition pending_ab :: CompareService where
  "pending_ab = snd (compare diffUri ''a'' ''b'' ''x'' new_CompareService)"

section \<open>Navigation: wrap-around\<close>

lemma findNext_loop_none:
  assumes "\<forall>j. i \<le> j \<and> j < length cs \<longrightarrow>
             \<not> (if inclusive then gmeln (cs ! j) \<ge> lineNumber
                else modifiedStartLineNumber (cs ! j) > lineNumber)"
  shows "findNext_loop gmeln cs lineNumber inclusive i = 0"
  using assms
proof (induction gmeln cs lineNumber inclusive i rule: findNext_loop.induct)
  case (1 gmeln cs lineNumber inclusive i)
  show ?case
  proof (cases "i < length cs")
    case False
    then show ?thesis by (simp add: findNext_loop.simps)
  next
    case True
    have here: "\<not> (if inclusive then gmeln (cs ! i) \<ge> lineNumber
                   else modifiedStartLineNumber (cs ! i) > lineNumber)"
      using "1.prems" True by blast
    have later: "\<forall>j. i + 1 \<le> j \<and> j < length cs \<longrightarrow>
             \<not> (if inclusive then gmeln (cs ! j) \<ge> lineNumber
                else modifiedStartLineNumber (cs ! j) > lineNumber)"
      using "1.prems" by auto
    show ?thesis
    proof (cases inclusive)
      case True
      with \<open>i < length cs\<close> here "1.IH"(1)[OF \<open>i < length cs\<close> refl True _ later]
      show ?thesis
        by (subst findNext_loop.simps) (simp add: Let_def)
    next
      case False
      with \<open>i < length cs\<close> here "1.IH"(2)[OF \<open>i < length cs\<close> refl False _ later]
      show ?thesis
        by (subst findNext_loop.simps) (simp add: Let_def)
    qed
  qed
qed

lemma findPrevious_loop_none:
  assumes "\<forall>j < k. \<not> (if inclusive then modifiedStartLineNumber (cs ! j) \<le> lineNumber
                       else gmeln (cs ! j) < lineNumber)"
  shows "findPrevious_loop gmeln cs lineNumber inclusive k = int (length cs) - 1"
  using assms
proof (induction k)
  case 0
  show ?case by simp
next
  case (Suc k)
  have here: "\<not> (if inclusive then modifiedStartLineNumber (cs ! k) \<le> lineNumber
                 else gmeln (cs ! k) < lineNumber)"
    using Suc.prems by simp
  have "findPrevious_loop gmeln cs lineNumber inclusive k = int (length cs) - 1"
    using Suc.IH Suc.prems by simp
  then show ?case
    using here by (cases inclusive) (simp_all add: Let_def)
qed

text \<open>
  C6. On the ChangeSet with three entries whose modified-side lines are 2, 10 and 20,
  \<open>findNextClosestChange 25\<close> (inclusive) returns index 0 and
  \<open>findPreviousClosestChange 1\<close> (inclusive) returns index 2. In general, on a non-empty
  ChangeSet in which no change qualifies, the next-search returns index 0 and the
  previous-search returns the last index. This holds whatever the helper
  \<open>getModifiedEndLineNumber\<close> computes; in the example it yields 2, 10 and 20.
\<close>

theorem navigation_wraparound:
  "(map modifiedStartLineNumber ex = [2, 10, 20] \<and> map gmeln ex = [2, 10, 20] \<longrightarrow>
      findNextClosestChange gmeln ex 25 True = 0 \<and>
      findPreviousClosestChange gmeln ex 1 True = 2)
   \<and> (cs \<noteq> [] \<and>
        (\<forall>c \<in> set cs. \<not> (if inclusive then gmeln c \<ge> lineNumber
                            else modifiedStartLineNumber c > lineNumber)) \<longrightarrow>
      findNextClosestChange gmeln cs lineNumber inclusive = 0)
   \<and> (cs' \<noteq> [] \<and>
        (\<forall>c \<in> set cs'. \<not> (if inclusive' then modifiedStartLineNumber c \<le> lineNumber'
                             else gmeln c < lineNumber')) \<longrightarrow>
      findPreviousClosestChange gmeln cs' lineNumber' inclusive' = int (length cs' - 1))"
proof (intro conjI impI)
  assume ex: "map modifiedStartLineNumber ex = [2, 10, 20] \<and> map gmeln ex = [2, 10, 20]"
  have ends: "gmeln c < 25" if "c \<in> set ex" for c
  proof -
    have "gmeln c \<in> set (map gmeln ex)"
      using that by simp
    then have "gmeln c \<in> {2, 10, 20}"
      using ex by simp
    then show ?thesis by auto
  qed
  have starts: "modifiedStartLineNumber c > 1" if "c \<in> set ex" for c
  proof -
    have "modifiedStartLineNumber c \<in> set (map modifiedStartLineNumber ex)"
      using that by simp
    then have "modifiedStartLineNumber c \<in> {2, 10, 20}"
      using ex by simp
    then show ?thesis by auto
  qed
  have len: "length ex = 3"
    using ex by (metis length_map length_Cons list.size(3) numeral_3_eq_3)
  show "findNextClosestChange gmeln ex 25 True = 0"
    unfolding findNextClosestChange_def
    by (rule findNext_loop_none) (use ends in \<open>auto simp: not_le\<close>)
  have "findPreviousClosestChange gmeln ex 1 True = int (length ex) - 1"
    unfolding findPreviousClosestChange_def
    by (rule findPrevious_loop_none) (use starts in \<open>auto simp: not_le\<close>)
  then show "findPreviousClosestChange gmeln ex 1 True = 2"
    using len by simp
next
  assume h: "cs \<noteq> [] \<and>
        (\<forall>c \<in> set cs. \<not> (if inclusive then gmeln c \<ge> lineNumber
                            else modifiedStartLineNumber c > lineNumber))"
  show "findNextClosestChange gmeln cs lineNumber inclusive = 0"
    unfolding findNextClosestChange_def
    by (rule findNext_loop_none) (use h in auto)
next
  assume h: "cs' \<noteq> [] \<and>
        (\<forall>c \<in> set cs'. \<not> (if inclusive' then modifiedStartLineNumber c \<le> lineNumber'
                             else gmeln c < lineNumber'))"
  have "findPreviousClosestChange gmeln cs' lineNumber' inclusive' = int (length cs') - 1"
    unfolding findPreviousClosestChange_def
    by (rule findPrevious_loop_none) (use h in auto)
  moreover have "length cs' \<ge> 1"
    using h by (cases cs') auto
  ultimately show "findPreviousClosestChange gmeln cs' lineNumber' inclusive' = int (length cs' - 1)"
    by (simp add: of_nat_diff)
qed

theorem navigation_wraparound_witness:
  "findNextClosestChange modifiedEndLineNumber ex3 25 True = 0 \<and>
   findPreviousClosestChange modifiedEndLineNumber ex3 1 True = 2 \<and>
   findNextClosestChange modifiedEndLineNumber ex3 21 False = 0 \<and>
   findPreviousClosestChange modifiedEndLineNumber ex3 2 False = 2"
  using navigation_wraparound [of ex3 modifiedEndLineNumber ex3 False 21 ex3 False 2]
  by (simp add: ex3_def chg_def)

section \<open>The list diff and the provider query\<close>

lemma sortedDiff_loop_same:
  "\<forall>x. cmp x x = 0 \<Longrightarrow> sortedDiff_loop cmp i xs xs result = result"
  by (induction xs arbitrary: i) (simp_all add: pushSplice_def)

lemma sortedDiff_same: "\<forall>x. cmp x x = 0 \<Longrightarrow> sortedDiff xs xs cmp = []"
  by (simp add: sortedDiff_def sortedDiff_loop_same)

lemma minimal_delta_example:
  "sortedDiff [chg 1] [chg 1, chg 5] byModifiedStart =
     [\<lparr>start = 1, deleteCount = 0, toInsert = [chg 5]\<rparr>]"
  by (simp add: sortedDiff_def pushSplice_def chg_def byModifiedStart_def)

lemma first_skips:
  "\<forall>f \<in> set fs. f () = Fulfilled None \<Longrightarrow> first (fs @ gs) = first gs"
  by (induction fs) simp_all

lemma first_none: "\<forall>f \<in> set fs. f () = Fulfilled None \<Longrightarrow> first fs = Fulfilled None"
  by (induction fs) simp_all

lemma first_rejected: "first fs = Rejected e \<Longrightarrow> \<exists>f \<in> set fs. f () = Rejected e"
  by (induction fs) (auto split: settled.splits option.splits)

text \<open>
  C8. The providers are queried in registration order and the resolved original-resource
  identifier is the answer of the first provider that returns a non-empty result; the
  providers before it, which returned empty, are skipped. With P1 returning none and P2
  returning \<open>orig://x\<close>, the resolved identifier is \<open>orig://x\<close>.
\<close>

theorem first_responder_wins:
  assumes "editorModel st = Some m"
    and "repositories env = earlier @ p # later"
    and "\<forall>q \<in> set earlier. q (uri m) = Fulfilled None"
    and "p (uri m) = Fulfilled (Some x)"
  shows "getOriginalResource env st = Fulfilled (Some x)"
proof -
  have "first (map (\<lambda>r. (\<lambda>_. r (uri m))) earlier @ map (\<lambda>r. (\<lambda>_. r (uri m))) (p # later))
        = first (map (\<lambda>r. (\<lambda>_. r (uri m))) (p # later))"
    by (rule first_skips) (use assms(3) in auto)
  then show ?thesis
    using assms(1,2,4) by (simp add: getOriginalResource_def)
qed

theorem first_responder_wins_witness:
  "getOriginalResource (workers []) tracked = Fulfilled (Some ''orig://x'')"
  using first_responder_wins [of tracked doc "workers []" "[\<lambda>_. Fulfilled None]"
      "\<lambda>_. Fulfilled (Some ''orig://x'')" "[]" "''orig://x''"]
  by (simp add: doc_def orig_def tracked_def workers_def)

section \<open>The coalescing gate\<close>

lemma fold_triggerDiff:
  "diffDelayer st \<Longrightarrow>
     fold triggerDiff ts st = st\<lparr>delayer := fold gate_trigger ts (delayer st)\<rparr>"
  by (induction ts arbitrary: st) (simp_all add: triggerDiff_def)

lemma gate_trigger_idle:
  "phase g = Idle \<Longrightarrow> gate_trigger t g = g\<lparr>phase := Scheduled (t + defaultDelay g)\<rparr>"
  by (simp add: gate_trigger_def gate_tick_def)

lemma gate_trigger_absorbed:
  "phase g = Scheduled d \<Longrightarrow> \<forall>t \<in> set ts. t < d \<Longrightarrow> fold gate_trigger ts g = g"
  by (induction ts) (simp_all add: gate_trigger_def gate_tick_def)

lemma gate_trigger_running:
  "phase g = Running \<or> phase g = RunningRequeued \<Longrightarrow>
     fold gate_trigger ts g = (if ts = [] then g else g\<lparr>phase := RunningRequeued\<rparr>)"
proof (induction ts arbitrary: g)
  case Nil
  show ?case by simp
next
  case (Cons t ts)
  have step: "gate_trigger t g = g\<lparr>phase := RunningRequeued\<rparr>"
    using Cons.prems by (auto simp: gate_trigger_def gate_tick_def)
  have "fold gate_trigger ts (g\<lparr>phase := RunningRequeued\<rparr>) =
        (if ts = [] then g\<lparr>phase := RunningRequeued\<rparr>
         else (g\<lparr>phase := RunningRequeued\<rparr>)\<lparr>phase := RunningRequeued\<rparr>)"
    by (rule Cons.IH) simp
  then show ?case
    using step by simp
qed

lemma fold_onDidAddRepository:
  "diffDelayer st \<Longrightarrow>
     fold (\<lambda>r. onDidAddRepository r now) repos st =
       st\<lparr>repositoryDisposables := repositoryDisposables st @ repos,
          delayer := fold gate_trigger (map (\<lambda>_. now) repos) (delayer st)\<rparr>"
  by (induction repos arbitrary: st) (simp_all add: onDidAddRepository_def triggerDiff_def)

lemma gate_trigger_same_instant:
  "phase g = Idle \<Longrightarrow> 0 < defaultDelay g \<Longrightarrow>
     gate_trigger now (fold gate_trigger (map (\<lambda>_. now) xs) g) =
       g\<lparr>phase := Scheduled (now + defaultDelay g)\<rparr>"
proof (cases xs)
  case Nil
  assume "phase g = Idle"
  then show ?thesis using Nil by (simp add: gate_trigger_idle)
next
  case (Cons x rest)
  assume idle: "phase g = Idle" and pos: "0 < defaultDelay g"
  define g1 where "g1 = g\<lparr>phase := Scheduled (now + defaultDelay g)\<rparr>"
  have "fold gate_trigger (map (\<lambda>_. now) rest) g1 = g1"
    by (rule gate_trigger_absorbed [of _ "now + defaultDelay g"]) (use pos in \<open>auto simp: g1_def\<close>)
  then have "fold gate_trigger (map (\<lambda>_. now) xs) g = g1"
    using idle by (simp add: Cons gate_trigger_idle g1_def)
  moreover have "gate_trigger now g1 = g1"
    using pos by (simp add: g1_def gate_trigger_def gate_tick_def)
  ultimately show ?thesis by (simp add: g1_def)
qed

text \<open>
  The constructor's own calls of \<open>triggerDiff\<close> (one per known repository and one
  more) arm the gate once, 200 time units ahead.
\<close>

lemma constructor_schedules_one_run:
  "delayer (constructor model repos now) =
     \<lparr>defaultDelay = 200, phase = Scheduled (now + 200), started = 0\<rparr> \<and>
   repositoryDisposables (constructor model repos now) = repos \<and>
   changes (constructor model repos now) = [] \<and>
   editorModel (constructor model repos now) = Some model"
  using gate_trigger_same_instant [of "new_ThrottledDelayer 200" now repos]
  by (simp add: constructor_def fold_onDidAddRepository triggerDiff_def new_ThrottledDelayer_def)

text \<open>
  C4. A burst of one or more calls of \<open>triggerDiff\<close> that arrive within the
  200-time-unit window while the gate is idle leads to exactly one run: the gate is
  scheduled once, the timer starts one run, and after that run the gate is idle again
  with one run counted. One or more calls while a run is in progress queue exactly one
  further run, which starts when the current one finishes; after it the gate is idle
  with exactly one extra run counted.
\<close>

theorem coalescing_and_single_followup:
  "(diffDelayer st \<and> defaultDelay (delayer st) = 200 \<and> phase (delayer st) = Idle \<and>
      ts \<noteq> [] \<and> (\<forall>t \<in> set ts. t < hd ts + 200) \<and> hd ts + 200 \<le> T \<longrightarrow>
      (let g = delayer (fold triggerDiff ts st) in
         phase g = Scheduled (hd ts + 200) \<and> started g = started (delayer st) \<and>
         phase (gate_tick T g) = Running \<and>
         started (gate_tick T g) = started (delayer st) + 1 \<and>
         phase (gate_finished (gate_tick T g)) = Idle \<and>
         started (gate_finished (gate_tick T g)) = started (delayer st) + 1))
   \<and> (diffDelayer st' \<and> phase (delayer st') = Running \<and> ts' \<noteq> [] \<longrightarrow>
      (let g = delayer (fold triggerDiff ts' st') in
         phase g = RunningRequeued \<and> started g = started (delayer st') \<and>
         phase (gate_finished g) = Running \<and>
         started (gate_finished g) = started (delayer st') + 1 \<and>
         phase (gate_finished (gate_finished g)) = Idle \<and>
         started (gate_finished (gate_finished g)) = started (delayer st') + 1))"
proof (intro conjI impI)
  assume h: "diffDelayer st \<and> defaultDelay (delayer st) = 200 \<and> phase (delayer st) = Idle \<and>
      ts \<noteq> [] \<and> (\<forall>t \<in> set ts. t < hd ts + 200) \<and> hd ts + 200 \<le> T"
  obtain t0 rest where ts: "ts = t0 # rest"
    using h by (cases ts) auto
  define g1 where "g1 = (delayer st)\<lparr>phase := Scheduled (t0 + 200)\<rparr>"
  have first_trigger: "gate_trigger t0 (delayer st) = g1"
    unfolding g1_def using h gate_trigger_idle [of "delayer st" t0] by simp
  have "fold gate_trigger rest g1 = g1"
    by (rule gate_trigger_absorbed [of _ "t0 + 200"]) (use h ts in \<open>auto simp: g1_def\<close>)
  moreover have "delayer (fold triggerDiff ts st) = fold gate_trigger ts (delayer st)"
    using h by (simp add: fold_triggerDiff)
  ultimately have g: "delayer (fold triggerDiff ts st) = g1"
    using first_trigger by (simp add: ts)
  show "let g = delayer (fold triggerDiff ts st) in
         phase g = Scheduled (hd ts + 200) \<and> started g = started (delayer st) \<and>
         phase (gate_tick T g) = Running \<and>
         started (gate_tick T g) = started (delayer st) + 1 \<and>
         phase (gate_finished (gate_tick T g)) = Idle \<and>
         started (gate_finished (gate_tick T g)) = started (delayer st) + 1"
    unfolding g Let_def using h ts
    by (simp add: g1_def gate_tick_def gate_finished_def)
next
  assume h: "diffDelayer st' \<and> phase (delayer st') = Running \<and> ts' \<noteq> []"
  have "fold gate_trigger ts' (delayer st') = (delayer st')\<lparr>phase := RunningRequeued\<rparr>"
    using h gate_trigger_running [of "delayer st'" ts'] by simp
  then have g: "delayer (fold triggerDiff ts' st') = (delayer st')\<lparr>phase := RunningRequeued\<rparr>"
    using h by (simp add: fold_triggerDiff)
  show "let g = delayer (fold triggerDiff ts' st') in
         phase g = RunningRequeued \<and> started g = started (delayer st') \<and>
         phase (gate_finished g) = Running \<and>
         started (gate_finished g) = started (delayer st') + 1 \<and>
         phase (gate_finished (gate_finished g)) = Idle \<and>
         started (gate_finished (gate_finished g)) = started (delayer st') + 1"
    unfolding g Let_def by (simp add: gate_finished_def)
qed

theorem coalescing_and_single_followup_witness:
  "started (gate_finished (gate_tick 200 (delayer (fold triggerDiff [0, 50, 199] idle_tracker)))) = 1 \<and>
   phase (gate_finished (gate_tick 200 (delayer (fold triggerDiff [0, 50, 199] idle_tracker)))) = Idle \<and>
   started (gate_finished (delayer (fold triggerDiff [5, 6] tracked))) = 2 \<and>
   started (gate_finished (gate_finished (delayer (fold triggerDiff [5, 6] tracked)))) = 2"
  using coalescing_and_single_followup [of idle_tracker "[0, 50, 199]" 200 tracked "[5, 6]"]
  by (simp add: doc_def orig_def tracked_def idle_tracker_def chg_def Let_def
        new_ThrottledDelayer_def)

section \<open>What a recompute changes\<close>

lemma interfere_changes [simp]: "changes (interfere a st) = changes st"
  by (cases a) (simp_all add: dispose_def)

lemma interfere_fired [simp]: "fired (interfere a st) = fired st"
  by (cases a) (simp_all add: dispose_def)

lemma interfere_detached [simp]: "editorModel st = None \<Longrightarrow> editorModel (interfere a st) = None"
  by (cases a) (simp_all add: dispose_def)

lemma interfere_no_original [simp]: "originalModel st = None \<Longrightarrow> originalModel (interfere a st) = None"
  by (cases a) (simp_all add: dispose_def)

lemma interfere_detaches:
  "editorModel (interfere a st) = None \<Longrightarrow> editorModel st = None \<or> a = Detach"
  by (cases a) (simp_all add: dispose_def)

lemma interfere_attached:
  "a \<noteq> Detach \<Longrightarrow> editorModel st \<noteq> None \<Longrightarrow> editorModel (interfere a st) \<noteq> None"
  by (cases a) simp_all

lemma interfere_cached:
  "a \<noteq> Detach \<Longrightarrow>
     (case originalModel (interfere a st) of None \<Rightarrow> False | Some om \<Rightarrow> uri om = u) =
     (case originalModel st of None \<Rightarrow> False | Some om \<Rightarrow> uri om = u)"
  by (cases a) (simp_all split: option.splits)

lemma dispose_detached [simp]:
  "editorModel (dispose st) = None" "originalModel (dispose st) = None"
  by (simp_all add: dispose_def)

lemma getOriginalURIPromise_keeps:
  "getOriginalURIPromise env sched st = (r, st1) \<Longrightarrow>
     changes st1 = changes st \<and> fired st1 = fired st"
  unfolding getOriginalURIPromise_def Let_def
  by (auto split: if_splits option.splits settled.splits)

lemma diff_keeps:
  "diff env sched st = (r, st2) \<Longrightarrow> changes st2 = changes st \<and> fired st2 = fired st"
  unfolding diff_def Let_def
  by (auto split: if_splits option.splits settled.splits prod.splits
           dest: getOriginalURIPromise_keeps)

lemma triggerDiff_then_models [simp]:
  "editorModel (triggerDiff_then cmp result st) = editorModel st"
  "originalModel (triggerDiff_then cmp result st) = originalModel st"
  unfolding triggerDiff_then_def Let_def
  by (auto split: option.splits)

lemma triggerDiff_then_detached:
  "editorModel st = None \<or> originalModel st = None \<Longrightarrow> triggerDiff_then cmp result st = st"
  unfolding triggerDiff_then_def by (auto split: option.splits)

lemma triggerDiff_then_fired:
  "\<forall>c. cmp c c = 0 \<Longrightarrow>
   fired (triggerDiff_then cmp result st) =
     (if sortedDiff (changes st) (changes (triggerDiff_then cmp result st)) cmp \<noteq> []
      then fired st @ [sortedDiff (changes st) (changes (triggerDiff_then cmp result st)) cmp]
      else fired st)"
  unfolding triggerDiff_then_def Let_def
  by (auto split: option.splits simp: sortedDiff_same)

text \<open>
  Every coalesced call of \<open>triggerDiff\<close> chains the same callback to the gate's
  promise; running the callback again on the same result changes nothing.
\<close>

lemma triggerDiff_then_idem:
  assumes "\<forall>c. cmp c c = 0"
  shows "triggerDiff_then cmp result (triggerDiff_then cmp result st) =
         triggerDiff_then cmp result st"
  using assms unfolding triggerDiff_then_def Let_def
  by (auto split: option.splits simp: sortedDiff_same)

lemma recompute_cases:
  assumes "recompute relay cmp env sched st = (r, st')"
  shows "\<exists>t s1. diff env sched st = (t, s1) \<and>
           ((\<exists>e. relay t = Rejected e \<and> r = Rejected e \<and> st' = interfere (sched AwaitDiff) s1) \<or>
            (\<exists>result. relay t = Fulfilled result \<and> r = Fulfilled () \<and>
               st' = triggerDiff_then cmp result (interfere (sched AwaitDiff) s1)))"
  using assms unfolding recompute_def Let_def
  by (auto split: prod.splits settled.splits)

text \<open>
  When the guard of the callback cannot pass at the end of \<open>diff\<close> (no editor model or no
  original model), the run changes neither the stored ChangeSet nor the events, whatever
  the gate makes of the task's settlement.
\<close>

lemma recompute_guard_fails:
  assumes "diff env sched st = (t, s2)" and "editorModel s2 = None \<or> originalModel s2 = None"
  shows "snd (recompute relay cmp env sched st) = interfere (sched AwaitDiff) s2"
    and "changes (snd (recompute relay cmp env sched st)) = changes st"
    and "fired (snd (recompute relay cmp env sched st)) = fired st"
proof -
  have gone: "editorModel (interfere (sched AwaitDiff) s2) = None \<or>
        originalModel (interfere (sched AwaitDiff) s2) = None"
    using assms(2) by auto
  have noop: "triggerDiff_then cmp result (interfere (sched AwaitDiff) s2) =
             interfere (sched AwaitDiff) s2" for result
    using gone by (rule triggerDiff_then_detached)
  show 1: "snd (recompute relay cmp env sched st) = interfere (sched AwaitDiff) s2"
    using assms(1) noop by (simp add: recompute_def Let_def split: settled.splits)
  have "changes s2 = changes st \<and> fired s2 = fired st"
    using assms(1) diff_keeps by blast
  then show "changes (snd (recompute relay cmp env sched st)) = changes st"
    and "fired (snd (recompute relay cmp env sched st)) = fired st"
    unfolding 1 by simp_all
qed

lemma recompute_downgrade_fulfils: "fst (recompute downgrade cmp env sched st) = Fulfilled ()"
proof -
  obtain t s1 where d: "diff env sched st = (t, s1)"
    by (cases "diff env sched st")
  show ?thesis
    using d by (cases t) (simp_all add: recompute_def Let_def)
qed

text \<open>
  C7. A recompute whose resulting ChangeSet equals the stored one emits no delta; a delta
  is emitted exactly when the list diff between the previous and the new ChangeSet is
  non-empty, and it is that list diff. The comparator is any function that answers 0 on
  two equal changes, and the gate may treat the task's settlement in any way.
\<close>

theorem delta_only_on_difference:
  assumes "\<forall>c. cmp c c = 0" and "recompute relay cmp env sched st = (r, st')"
  shows "(changes st' = changes st \<longrightarrow> fired st' = fired st) \<and>
         fired st' =
           (if sortedDiff (changes st) (changes st') cmp \<noteq> []
            then fired st @ [sortedDiff (changes st) (changes st') cmp]
            else fired st)"
proof -
  obtain t s1 where d: "diff env sched st = (t, s1)"
    and alt: "st' = interfere (sched AwaitDiff) s1 \<or>
              (\<exists>result. st' = triggerDiff_then cmp result (interfere (sched AwaitDiff) s1))"
    using recompute_cases [OF assms(2)] by blast
  have keep: "changes s1 = changes st \<and> fired s1 = fired st"
    using d diff_keeps by blast
  have main: "fired st' =
           (if sortedDiff (changes st) (changes st') cmp \<noteq> []
            then fired st @ [sortedDiff (changes st) (changes st') cmp]
            else fired st)"
    using alt
  proof
    assume "st' = interfere (sched AwaitDiff) s1"
    then show ?thesis
      using keep assms(1) by (simp add: sortedDiff_same)
  next
    assume "\<exists>result. st' = triggerDiff_then cmp result (interfere (sched AwaitDiff) s1)"
    then obtain result where
      st': "st' = triggerDiff_then cmp result (interfere (sched AwaitDiff) s1)" ..
    show ?thesis
      using triggerDiff_then_fired [of cmp result "interfere (sched AwaitDiff) s1"] assms(1) keep
      unfolding st' by simp
  qed
  moreover have "changes st' = changes st \<longrightarrow> fired st' = fired st"
    using main assms(1) by (simp add: sortedDiff_same)
  ultimately show ?thesis by simp
qed

theorem delta_only_on_difference_witness:
  "fired (snd (recompute downgrade byModifiedStart (workers [chg 3]) quiet tracked)) = [] \<and>
   fired (snd (recompute downgrade byModifiedStart (workers [chg 3, chg 8]) quiet tracked)) =
     [[\<lparr>start = 1, deleteCount = 0, toInsert = [chg 8]\<rparr>]]"
  using delta_only_on_difference [of byModifiedStart downgrade "workers [chg 3]" quiet tracked
      "fst (recompute downgrade byModifiedStart (workers [chg 3]) quiet tracked)"
      "snd (recompute downgrade byModifiedStart (workers [chg 3]) quiet tracked)"]
    delta_only_on_difference [of byModifiedStart downgrade "workers [chg 3, chg 8]" quiet tracked
      "fst (recompute downgrade byModifiedStart (workers [chg 3, chg 8]) quiet tracked)"
      "snd (recompute downgrade byModifiedStart (workers [chg 3, chg 8]) quiet tracked)"]
  by (simp add: chg_def byModifiedStart_def doc_def orig_def tracked_def quiet_def workers_def
        recompute_def diff_def getOriginalURIPromise_def getOriginalResource_def
        triggerDiff_then_def sortedDiff_def pushSplice_def Let_def)

text \<open>
  C10. When a recompute settles with the guard of the callback passing (both text models
  present and not disposed) and the cached original has content length zero, the stored
  ChangeSet is empty afterwards, whatever the diff oracle returned.
\<close>

theorem forced_empty_on_empty_original:
  assumes "recompute relay cmp env sched st = (Fulfilled (), st')"
    and "editorModel st' = Some em" and "\<not> disposed em"
    and "originalModel st' = Some om" and "\<not> disposed om"
    and "valueLength om = 0"
  shows "changes st' = []"
proof -
  obtain result s1 where
    st': "st' = triggerDiff_then cmp result (interfere (sched AwaitDiff) s1)"
    using recompute_cases [OF assms(1)] by auto
  define st2 where "st2 = interfere (sched AwaitDiff) s1"
  have "editorModel st2 = Some em" "originalModel st2 = Some om"
    using assms(2,4) unfolding st' st2_def by simp_all
  then show ?thesis
    using assms(3,5,6) unfolding st' st2_def [symmetric] triggerDiff_then_def
    by (simp add: Let_def)
qed

theorem forced_empty_on_empty_original_witness:
  "changes (snd (recompute downgrade byModifiedStart (workers [chg 3, chg 8]) quiet
     empty_original)) = []"
  using forced_empty_on_empty_original [of downgrade byModifiedStart "workers [chg 3, chg 8]"
      quiet empty_original
      "snd (recompute downgrade byModifiedStart (workers [chg 3, chg 8]) quiet empty_original)"
      doc "orig\<lparr>valueLength := 0\<rparr>"]
  by (simp add: chg_def byModifiedStart_def doc_def orig_def tracked_def quiet_def workers_def
        empty_original_def recompute_def diff_def getOriginalURIPromise_def
        getOriginalResource_def triggerDiff_then_def sortedDiff_def pushSplice_def Let_def)

section \<open>Unavailable results\<close>

text \<open>
  The three ways a resolution ends without an original: no provider yields an
  identifier; the tracker is disposed while the providers are queried; the tracker is
  disposed while the document manager resolves the identifier. Each time the promise is
  fulfilled with \<open>null\<close> or rejected by a collaborator, and the tracker is left without an
  editor model or without an original model.
\<close>

lemma no_provider_resolution:
  assumes "editorModel st = Some m"
    and "\<forall>p \<in> set (repositories env). p (uri m) = Fulfilled None"
  shows "\<exists>s1. getOriginalURIPromise env sched st = (Fulfilled None, s1) \<and>
              (editorModel s1 = None \<or> originalModel s1 = None)"
proof -
  have "getOriginalResource env st = Fulfilled None"
    using assms by (simp add: getOriginalResource_def first_none)
  then show ?thesis
    unfolding getOriginalURIPromise_def by (simp add: Let_def)
qed

lemma detach_at_providers_resolution:
  assumes "sched AwaitProviders = Detach"
  shows "\<exists>r s1. getOriginalURIPromise env sched st = (r, s1) \<and> editorModel s1 = None \<and>
           (r = Fulfilled None \<or> (\<exists>e. r = Rejected e))"
  using assms unfolding getOriginalURIPromise_def
  by (cases "getOriginalResource env st") (simp_all add: Let_def)

lemma detach_at_resolver_resolution:
  assumes "editorModel st = Some m"
    and "getOriginalResource env st = Fulfilled (Some u)"
    and "\<forall>om. originalModel st = Some om \<longrightarrow> uri om \<noteq> u"
    and "sched AwaitResolver = Detach"
  shows "\<exists>r s1. getOriginalURIPromise env sched st = (r, s1) \<and> editorModel s1 = None \<and>
           (r = Fulfilled None \<or> (\<exists>e. r = Rejected e))"
proof (cases "sched AwaitProviders = Detach")
  case True
  then show ?thesis by (rule detach_at_providers_resolution)
next
  case False
  define st1 where "st1 = interfere (sched AwaitProviders) st"
  have att: "editorModel st1 \<noteq> None"
    unfolding st1_def using False assms(1) by (simp add: interfere_attached)
  have "\<not> (case originalModel st of None \<Rightarrow> False | Some om \<Rightarrow> uri om = u)"
    using assms(3) by (simp split: option.splits)
  then have miss: "\<not> (case originalModel st1 of None \<Rightarrow> False | Some om \<Rightarrow> uri om = u)"
    unfolding st1_def using False by (simp add: interfere_cached)
  show ?thesis
    unfolding getOriginalURIPromise_def Let_def st1_def [symmetric]
    using assms(2,4) att miss
    by (cases "createModelReference env u") simp_all
qed

lemma diff_without_original:
  assumes "getOriginalURIPromise env sched st = (r, s1)"
    and "editorModel s1 = None \<or> originalModel s1 = None"
    and "r = Fulfilled None \<or> (\<exists>e. r = Rejected e)"
  shows "\<exists>t s2. diff env sched st = (t, s2) \<and> downgrade t = Fulfilled (Some []) \<and>
           (r = Fulfilled None \<longrightarrow> t = Fulfilled (Some [])) \<and>
           (editorModel s2 = None \<or> originalModel s2 = None)"
  using assms unfolding diff_def
  by (auto simp: Let_def split: option.splits)

text \<open>
  C2 as stated fails: the stored ChangeSet does not become empty. With a stored
  ChangeSet of one change, a recompute in which no provider answers leaves that change
  stored, and so does a recompute during which the tracker is detached.
\<close>

theorem stored_changes_survive_unavailable_result:
  "changes (snd (recompute downgrade byModifiedStart unowned quiet tracked)) = [chg 3] \<and>
   changes (snd (recompute downgrade byModifiedStart (workers [chg 3])
     (detach_at AwaitProviders) tracked)) = [chg 3]"
  by (simp add: chg_def byModifiedStart_def doc_def orig_def tracked_def quiet_def detach_at_def
        workers_def unowned_def recompute_def diff_def getOriginalURIPromise_def
        getOriginalResource_def triggerDiff_then_def dispose_def Let_def)

text \<open>
  C2, amended. In every recompute in which no provider yields an identifier, or in which
  the tracker is detached while the providers are queried or while the document manager
  resolves the identifier, the result handed to the callback is an empty ChangeSet and
  the recompute raises no error (a collaborator that fails on the way is downgraded by
  the gate of the spec; when no provider yields an identifier \<open>diff\<close> itself resolves to
  the empty ChangeSet). The callback's guard then discards the result: whatever the gate
  does, the stored ChangeSet is left as it was and no delta is emitted.
\<close>

theorem unavailable_resolves_empty_keeps_stored:
  assumes "(\<exists>m. editorModel st = Some m \<and>
               (\<forall>p \<in> set (repositories env). p (uri m) = Fulfilled None))
         \<or> sched AwaitProviders = Detach
         \<or> (\<exists>m u. editorModel st = Some m \<and> getOriginalResource env st = Fulfilled (Some u) \<and>
               (\<forall>om. originalModel st = Some om \<longrightarrow> uri om \<noteq> u) \<and>
               sched AwaitResolver = Detach)"
  shows "downgrade (fst (diff env sched st)) = Fulfilled (Some []) \<and>
         ((\<exists>m. editorModel st = Some m \<and>
               (\<forall>p \<in> set (repositories env). p (uri m) = Fulfilled None)) \<longrightarrow>
            fst (diff env sched st) = Fulfilled (Some [])) \<and>
         fst (recompute downgrade cmp env sched st) = Fulfilled () \<and>
         changes (snd (recompute relay cmp env sched st)) = changes st \<and>
         fired (snd (recompute relay cmp env sched st)) = fired st"
proof -
  have res: "\<exists>r s1. getOriginalURIPromise env sched st = (r, s1) \<and>
           (editorModel s1 = None \<or> originalModel s1 = None) \<and>
           (r = Fulfilled None \<or> (\<exists>e. r = Rejected e)) \<and>
           ((\<exists>m. editorModel st = Some m \<and>
               (\<forall>p \<in> set (repositories env). p (uri m) = Fulfilled None)) \<longrightarrow> r = Fulfilled None)"
  proof (cases "\<exists>m. editorModel st = Some m \<and>
               (\<forall>p \<in> set (repositories env). p (uri m) = Fulfilled None)")
    case True
    then show ?thesis
      using no_provider_resolution [of st _ env sched] by blast
  next
    case False
    then show ?thesis
      using assms detach_at_providers_resolution [of sched env st]
        detach_at_resolver_resolution [of st _ env _ sched]
      by blast
  qed
  then obtain r s1 where s1: "getOriginalURIPromise env sched st = (r, s1)"
    and gone: "editorModel s1 = None \<or> originalModel s1 = None"
    and how: "r = Fulfilled None \<or> (\<exists>e. r = Rejected e)"
    and unowned: "(\<exists>m. editorModel st = Some m \<and>
               (\<forall>p \<in> set (repositories env). p (uri m) = Fulfilled None)) \<longrightarrow> r = Fulfilled None"
    by blast
  obtain t s2 where d: "diff env sched st = (t, s2)"
    and empty: "downgrade t = Fulfilled (Some [])"
    and direct: "r = Fulfilled None \<longrightarrow> t = Fulfilled (Some [])"
    and gone2: "editorModel s2 = None \<or> originalModel s2 = None"
    using diff_without_original [OF s1 gone how] by blast
  show ?thesis
    using d empty direct unowned recompute_guard_fails(2,3) [OF d gone2, of relay cmp]
      recompute_downgrade_fulfils [of cmp env sched st]
    by simp
qed

theorem unavailable_resolves_empty_keeps_stored_witness:
  "fst (diff unowned quiet tracked) = Fulfilled (Some []) \<and>
   changes (snd (recompute downgrade byModifiedStart unowned quiet tracked)) = [chg 3] \<and>
   fst (diff rejecting_resolver (detach_at AwaitResolver) tracked) = Rejected ''resolve failed'' \<and>
   recompute downgrade byModifiedStart rejecting_resolver (detach_at AwaitResolver) tracked =
     (Fulfilled (), dispose tracked) \<and>
   fst (diff rejecting_provider (detach_at AwaitProviders) tracked) = Rejected ''provider failed'' \<and>
   recompute downgrade byModifiedStart rejecting_provider (detach_at AwaitProviders) tracked =
     (Fulfilled (), dispose tracked)"
  using unavailable_resolves_empty_keeps_stored [of tracked unowned quiet byModifiedStart downgrade]
    unavailable_resolves_empty_keeps_stored [of tracked rejecting_resolver
      "detach_at AwaitResolver" byModifiedStart downgrade]
    unavailable_resolves_empty_keeps_stored [of tracked rejecting_provider
      "detach_at AwaitProviders" byModifiedStart downgrade]
  by (simp add: chg_def byModifiedStart_def doc_def orig_def tracked_def quiet_def detach_at_def
        workers_def unowned_def rejecting_resolver_def rejecting_provider_def recompute_def diff_def
        getOriginalURIPromise_def getOriginalResource_def triggerDiff_then_def dispose_def
        Let_def)

section \<open>Collaborator failures\<close>

text \<open>
  \<open>diff\<close> has no rejection handler of its own: when it rejects, a provider, the document
  manager or the diff oracle rejected with that error.
\<close>

lemma getOriginalURIPromise_rejected:
  "getOriginalURIPromise env sched st = (Rejected e, s1) \<Longrightarrow>
     (\<exists>u. createModelReference env u = Rejected e) \<or>
     (\<exists>p \<in> set (repositories env). \<exists>u. p u = Rejected e)"
  unfolding getOriginalURIPromise_def getOriginalResource_def Let_def
  by (auto split: if_splits option.splits settled.splits dest!: first_rejected)

lemma diff_rejected:
  "diff env sched st = (Rejected e, s2) \<Longrightarrow>
     (\<exists>u. createModelReference env u = Rejected e) \<or>
     (\<exists>p \<in> set (repositories env). \<exists>u. p u = Rejected e) \<or>
     (\<exists>u v. computeDiff env u v = Rejected e)"
  unfolding diff_def Let_def
  by (auto split: if_splits option.splits settled.splits prod.splits
           dest: getOriginalURIPromise_rejected)

text \<open>
  C3. When the document manager or the diff oracle rejects, \<open>diff\<close> rejects, and the gate
  of the spec downgrades the failure to an empty result: the recompute is fulfilled, not
  rejected, and the callback is run with the empty ChangeSet. In an undisturbed run on a
  tracker whose editor model and cached original are live, the stored ChangeSet is empty
  afterwards and the delta to the empty ChangeSet is emitted. (Where the callback's guard
  does not pass, the callback publishes nothing, as for every other result.)
\<close>

theorem collaborator_failure_downgraded:
  "fst (recompute downgrade cmp env sched st) = Fulfilled ()
   \<and> (diff env sched st = (Rejected e, s1) \<longrightarrow>
        recompute downgrade cmp env sched st =
          (Fulfilled (), triggerDiff_then cmp (Some []) (interfere (sched AwaitDiff) s1)))
   \<and> ((\<forall>w. sched w = Quiet) \<and> editorModel st = Some m \<and> \<not> disposed m \<and>
       originalModel st = Some om \<and> \<not> disposed om \<and>
       getOriginalResource env st = Fulfilled (Some u) \<and>
       ((uri om \<noteq> u \<and> createModelReference env u = Rejected e) \<or>
        (uri om = u \<and> canComputeDiff env u (uri m) \<and> computeDiff env u (uri m) = Rejected e)) \<longrightarrow>
        diff env sched st = (Rejected e, st) \<and>
        recompute downgrade cmp env sched st =
          (Fulfilled (),
           st\<lparr>changes := [],
              fired := (if sortedDiff (changes st) [] cmp \<noteq> []
                        then fired st @ [sortedDiff (changes st) [] cmp] else fired st)\<rparr>))"
proof (intro conjI impI)
  show "fst (recompute downgrade cmp env sched st) = Fulfilled ()"
    by (rule recompute_downgrade_fulfils)
next
  assume "diff env sched st = (Rejected e, s1)"
  then show "recompute downgrade cmp env sched st =
          (Fulfilled (), triggerDiff_then cmp (Some []) (interfere (sched AwaitDiff) s1))"
    by (simp add: recompute_def Let_def)
next
  assume h: "(\<forall>w. sched w = Quiet) \<and> editorModel st = Some m \<and> \<not> disposed m \<and>
       originalModel st = Some om \<and> \<not> disposed om \<and>
       getOriginalResource env st = Fulfilled (Some u) \<and>
       ((uri om \<noteq> u \<and> createModelReference env u = Rejected e) \<or>
        (uri om = u \<and> canComputeDiff env u (uri m) \<and> computeDiff env u (uri m) = Rejected e))"
  show d: "diff env sched st = (Rejected e, st)"
    using h unfolding diff_def getOriginalURIPromise_def
    by (auto simp: Let_def)
  have "triggerDiff_then cmp (Some []) st =
          st\<lparr>changes := [],
              fired := (if sortedDiff (changes st) [] cmp \<noteq> []
                        then fired st @ [sortedDiff (changes st) [] cmp] else fired st)\<rparr>"
    using h by (simp add: triggerDiff_then_def Let_def)
  then show "recompute downgrade cmp env sched st =
          (Fulfilled (),
           st\<lparr>changes := [],
              fired := (if sortedDiff (changes st) [] cmp \<noteq> []
                        then fired st @ [sortedDiff (changes st) [] cmp] else fired st)\<rparr>)"
    using d h by (simp add: recompute_def Let_def)
qed

theorem collaborator_failure_downgraded_witness:
  "diff failing_oracle quiet tracked = (Rejected ''diff failed'', tracked) \<and>
   recompute downgrade byModifiedStart failing_oracle quiet tracked =
     (Fulfilled (),
      tracked\<lparr>changes := [], fired := [[\<lparr>start = 0, deleteCount = 1, toInsert = []\<rparr>]]\<rparr>) \<and>
   diff rejecting_resolver quiet tracked = (Rejected ''resolve failed'', tracked) \<and>
   changes (snd (recompute downgrade byModifiedStart rejecting_resolver quiet tracked)) = []"
  using collaborator_failure_downgraded [of byModifiedStart failing_oracle quiet tracked
      "''diff failed''" tracked doc orig "''orig://x''"]
    collaborator_failure_downgraded [of byModifiedStart rejecting_resolver quiet tracked
      "''resolve failed''" tracked doc orig "''orig://y''"]
  by (simp add: chg_def byModifiedStart_def doc_def orig_def tracked_def quiet_def workers_def
        failing_oracle_def rejecting_resolver_def getOriginalResource_def sortedDiff_def
        pushSplice_def)

section \<open>Detach\<close>

lemma getOriginalURIPromise_detached:
  "getOriginalURIPromise env sched st = (r, s1) \<Longrightarrow> editorModel s1 = None \<Longrightarrow>
     editorModel st = None \<or> sched AwaitProviders = Detach \<or> sched AwaitResolver = Detach"
  unfolding getOriginalURIPromise_def Let_def
  by (auto split: if_splits option.splits settled.splits dest!: interfere_detaches)

lemma diff_detached:
  "diff env sched st = (r, s2) \<Longrightarrow> editorModel s2 = None \<Longrightarrow>
     editorModel st = None \<or> sched AwaitProviders = Detach \<or> sched AwaitResolver = Detach \<or>
     sched AwaitOriginalURI = Detach"
  unfolding diff_def Let_def
  by (auto split: if_splits option.splits settled.splits prod.splits
           dest!: interfere_detaches dest: getOriginalURIPromise_detached)

text \<open>
  A recompute that began attached ends detached only if \<open>dispose\<close> ran at one of its
  waits; one that began detached ends detached.
\<close>

lemma detached_only_by_detach:
  assumes "recompute relay cmp env sched st = (r, st')" and "editorModel st' = None"
  shows "editorModel st = None \<or> (\<exists>w. sched w = Detach)"
proof -
  obtain t s1 where d: "diff env sched st = (t, s1)"
    and alt: "st' = interfere (sched AwaitDiff) s1 \<or>
              (\<exists>result. st' = triggerDiff_then cmp result (interfere (sched AwaitDiff) s1))"
    using recompute_cases [OF assms(1)] by blast
  have "editorModel (interfere (sched AwaitDiff) s1) = None"
    using alt assms(2) by auto
  then have "editorModel s1 = None \<or> sched AwaitDiff = Detach"
    by (rule interfere_detaches)
  then show ?thesis using d diff_detached by blast
qed

lemma getOriginalURIPromise_stays_detached:
  "getOriginalURIPromise env sched st = (r, s1) \<Longrightarrow> editorModel st = None \<Longrightarrow>
     editorModel s1 = None"
  unfolding getOriginalURIPromise_def Let_def
  by (auto split: if_splits option.splits settled.splits)

lemma diff_stays_detached:
  "diff env sched st = (r, s2) \<Longrightarrow> editorModel st = None \<Longrightarrow> editorModel s2 = None"
  unfolding diff_def Let_def
  by (auto split: if_splits option.splits settled.splits prod.splits
           dest: getOriginalURIPromise_stays_detached)

lemma detached_stays_detached:
  assumes "editorModel st = None"
  shows "editorModel (snd (recompute relay cmp env sched st)) = None"
proof -
  obtain t s2 where d: "diff env sched st = (t, s2)"
    by (cases "diff env sched st")
  have "editorModel s2 = None"
    using d assms by (rule diff_stays_detached)
  then show ?thesis
    using recompute_guard_fails(1) [OF d, of relay cmp] by simp
qed



section \<open>CompareService: deduplication and settlement\<close>

text \<open>
  C1 as stated fails: two calls of \<open>compare\<close> with the same triple return the same
  handle, but \<open>OPEN_RESOURCE\<close> is executed twice, not once.
\<close>

theorem compare_opens_twice:
  "fst (compare diffUri ''a'' ''b'' ''x'' pending_ab) =
     fst (compare diffUri ''a'' ''b'' ''x'' new_CompareService) \<and>
   count_list (executed (snd (compare diffUri ''a'' ''b'' ''x'' pending_ab)))
     (OPEN_RESOURCE (diffUri ''a'' ''b'' ''x'')) = 2"
  by (simp add: pending_ab_def compare_def new_CompareService_def Let_def)

text \<open>
  C1, amended. While the entry of a comparison is registered, a further call of
  \<open>compare\<close> with the same triple returns the same handle and creates no second
  \<open>Deferred\<close>, and executes \<open>OPEN_RESOURCE\<close> once more: two calls in a row execute it
  twice.
\<close>

theorem compare_reuses_pending_but_reopens:
  "(compareUri original modified name = k \<and> comparing s k = Some d \<longrightarrow>
      compare compareUri original modified name s =
        (d, s\<lparr>executed := executed s @ [OPEN_RESOURCE k]\<rparr>))
   \<and> (case compare compareUri original modified name s0 of (h1, s1) \<Rightarrow>
        case compare compareUri original modified name s1 of (h2, s2) \<Rightarrow>
          h2 = h1 \<and> deferreds s2 = deferreds s1 \<and> comparing s2 = comparing s1 \<and>
          executed s2 = executed s0 @
            [OPEN_RESOURCE (compareUri original modified name),
             OPEN_RESOURCE (compareUri original modified name)])"
  by (auto simp: compare_def Let_def)

theorem compare_reuses_pending_but_reopens_witness:
  "compare diffUri ''a'' ''b'' ''x'' pending_ab =
     (0, pending_ab\<lparr>executed := [OPEN_RESOURCE (diffUri ''a'' ''b'' ''x''),
                                  OPEN_RESOURCE (diffUri ''a'' ''b'' ''x'')]\<rparr>)"
  using compare_reuses_pending_but_reopens [of diffUri "''a''" "''b''" "''x''"
      "diffUri ''a'' ''b'' ''x''" pending_ab 0 new_CompareService]
  by (simp add: pending_ab_def compare_def new_CompareService_def Let_def)

text \<open>
  A first call of \<open>compare\<close> for an identifier registers a pending \<open>Deferred\<close> that
  carries that identifier; these are the facts the settlement below starts from.
\<close>

lemma compare_registers_pending:
  assumes "comparing s (compareUri original modified name) = None"
  shows "case compare compareUri original modified name s of (d, s1) \<Rightarrow>
           comparing s1 (compareUri original modified name) = Some d \<and>
           d < length (deferreds s1) \<and>
           resource (deferreds s1 ! d) = compareUri original modified name \<and>
           outcome (deferreds s1 ! d) = None \<and> microtasks s1 = microtasks s"
  using assms by (simp add: compare_def Let_def)

text \<open>
  C9. After a pending comparison is settled by the accept or the revert command and its
  callback has run, its entry is gone from the registry and \<open>CLOSE_ALL\<close> was executed; a
  further command for the same identifier changes nothing, and even before the callback
  runs it cannot change the outcome; a new call of \<open>compare\<close> with the same triple
  creates a fresh pending \<open>Deferred\<close>, distinct from the settled one.
\<close>

theorem settlement_cleans_up:
  assumes "compareUri original modified name = k"
    and "comparing s k = Some d" and "d < length (deferreds s)"
    and "resource (deferreds s ! d) = k" and "outcome (deferreds s ! d) = None"
    and "microtasks s = []"
  shows "let s1 = run_microtasks (execute v (Some k) s) in
           comparing s1 k = None \<and> outcome (deferreds s1 ! d) = Some v \<and>
           executed s1 = executed s @ [CLOSE_ALL k] \<and>
           execute v' (Some k) s1 = s1 \<and>
           outcome (deferreds (execute v' (Some k) (execute v (Some k) s)) ! d) = Some v \<and>
           (case compare compareUri original modified name s1 of (h, s2) \<Rightarrow>
              h \<noteq> d \<and> h = length (deferreds s1) \<and> comparing s2 k = Some h \<and>
              outcome (deferreds s2 ! h) = None \<and> outcome (deferreds s2 ! d) = Some v)"
proof -
  define sa where "sa = execute v (Some k) s"
  have sa: "sa = s\<lparr>deferreds := (deferreds s)[d := (deferreds s ! d)\<lparr>outcome := Some v\<rparr>],
                  microtasks := [d]\<rparr>"
    unfolding sa_def using assms by (simp add: execute_def Deferred_resolve_def)
  define s1 where "s1 = run_microtasks sa"
  have s1: "s1 = s\<lparr>deferreds := (deferreds s)[d := (deferreds s ! d)\<lparr>outcome := Some v\<rparr>],
                  microtasks := [],
                  comparing := (comparing s)(k := None),
                  executed := executed s @ [CLOSE_ALL k]\<rparr>"
    unfolding s1_def sa using assms by (simp add: run_microtasks_def on_settled_def Let_def)
  have again: "execute v' (Some k) sa = sa"
    unfolding sa using assms by (simp add: execute_def Deferred_resolve_def)
  have noop: "execute v' (Some k) s1 = s1"
    unfolding s1 by (simp add: execute_def)
  have fresh: "case compare compareUri original modified name s1 of (h, s2) \<Rightarrow>
              h \<noteq> d \<and> h = length (deferreds s1) \<and> comparing s2 k = Some h \<and>
              outcome (deferreds s2 ! h) = None \<and> outcome (deferreds s2 ! d) = Some v"
    unfolding s1 using assms by (simp add: compare_def Let_def nth_append)
  show ?thesis
    unfolding Let_def sa_def [symmetric] s1_def [symmetric]
    using again noop fresh s1 sa assms by simp
qed

theorem settlement_cleans_up_witness:
  "comparing (run_microtasks (execute accept (Some (diffUri ''a'' ''b'' ''x'')) pending_ab))
     (diffUri ''a'' ''b'' ''x'') = None \<and>
   execute revert (Some (diffUri ''a'' ''b'' ''x''))
     (run_microtasks (execute accept (Some (diffUri ''a'' ''b'' ''x'')) pending_ab)) =
     run_microtasks (execute accept (Some (diffUri ''a'' ''b'' ''x'')) pending_ab) \<and>
   fst (compare diffUri ''a'' ''b'' ''x''
     (run_microtasks (execute accept (Some (diffUri ''a'' ''b'' ''x'')) pending_ab))) = 1"
  using settlement_cleans_up [of diffUri "''a''" "''b''" "''x''" "diffUri ''a'' ''b'' ''x''"
      pending_ab 0 accept revert]
  by (simp add: pending_ab_def compare_def new_CompareService_def execute_def
        Deferred_resolve_def run_microtasks_def on_settled_def Let_def)

end
